theory Spec2Isabelle
  imports Complex_Main "HOL-Library.Log_Nat"
begin

section \<open>PDF region text extractor (app.py): numbers, errors and strings\<close>

text \<open>
  The program is a Python script. Its numbers are Python ints and floats; a number of the
  model is a rational, the value of the int or of the double. Pixel sizes of images, which
  the imaging library keeps as C ints, are \<open>int\<close>.

  Two arithmetics are used. The coordinate mapper multiplies and divides coordinates and
  hands the results on as they are; it is modelled in exact arithmetic, so the statements
  about scaled coordinates are statements of exact arithmetic, from which the doubles of
  the program differ by rounding alone. The rasterizer passes its products to
  \<open>int(..)\<close>, where the last bit of a double decides the pixel count; its divisions
  and multiplications are modelled as the IEEE 754 double operations they are: the exact
  result rounded to the nearest double, ties to even (\<open>to_double\<close> below). Results of
  magnitude \<open>2 ^ 1024\<close> and above, which are infinite as doubles, are not modelled:
  the statements about the rasterizer keep all sizes and bounds below \<open>2 ^ 31\<close>.

  A raised exception is a value: \<open>Inl e\<close> in a result of type \<open>py_error + 'a\<close>.
\<close>

type_synonym number = rat

datatype py_error =
    ZeroDivisionError
  | IndexError
  | Raised string

text \<open>\<open>str(e)\<close>, as the f-strings of the error notices use it.\<close>

fun str_exc :: "py_error \<Rightarrow> string" where
  "str_exc ZeroDivisionError = ''division by zero''"
| "str_exc IndexError = ''list index out of range''"
| "str_exc (Raised msg) = msg"

text \<open>
  Python's true division \<open>a / b\<close> in exact arithmetic, as the coordinate mapper is
  modelled: raises on a zero divisor.
\<close>

definition py_truediv :: "number \<Rightarrow> number \<Rightarrow> py_error + number" where
  "py_truediv a b = (if b = 0 then Inl ZeroDivisionError else Inr (a / b))"

text \<open>
  Doubles. \<open>ilog2 x\<close> is the integer \<open>k\<close> with \<open>2 ^ k \<le> x < 2 ^ (k + 1)\<close> for a
  positive \<open>x\<close>, computed from the bit lengths of numerator and denominator. A double
  near \<open>x\<close> is a multiple of \<open>2 ^ e\<close> with \<open>e = k - 52\<close> (53 significant bits), and
  never less than \<open>- 1074\<close> (the subnormal doubles); \<open>to_double x\<close> is the nearest
  such multiple, the even one of two that are equally near.
\<close>

definition ilog2 :: "rat \<Rightarrow> int" where
  "ilog2 x =
     (let d = bitlen (fst (quotient_of x)) - bitlen (snd (quotient_of x))
      in if 2 powi d \<le> x then d else d - 1)"

definition round_half_even :: "rat \<Rightarrow> int" where
  "round_half_even z =
     (let f = \<lfloor>z\<rfloor>; d = z - of_int f
      in if d < 1 / 2 then f else if 1 / 2 < d then f + 1 else if even f then f else f + 1)"

definition double_exponent :: "rat \<Rightarrow> int" where
  "double_exponent x = max (ilog2 \<bar>x\<bar> - 52) (- 1074)"

definition to_double :: "rat \<Rightarrow> rat" where
  "to_double x =
     (if x = 0 then 0
      else of_int (round_half_even (x / 2 powi double_exponent x)) * 2 powi double_exponent x)"

text \<open>
  The division and the multiplication of the rasterizer: \<open>a / b\<close> of two ints, or of a
  double and an int, and \<open>n * x\<close> of an int and a double, give the rounded exact result
  (an int below \<open>2 ^ 53\<close> converts to a double exactly).
\<close>

definition double_truediv :: "number \<Rightarrow> number \<Rightarrow> py_error + number" where
  "double_truediv a b = (if b = 0 then Inl ZeroDivisionError else Inr (to_double (a / b)))"

definition double_mul :: "number \<Rightarrow> number \<Rightarrow> number" where
  "double_mul a b = to_double (a * b)"

text \<open>Python's \<open>int(x)\<close> on a float: truncation towards zero.\<close>

definition py_int :: "number \<Rightarrow> int" where
  "py_int x = (if 0 \<le> x then \<lfloor>x\<rfloor> else \<lceil>x\<rceil>)"

text \<open>
  Python's \<open>xs[i]\<close> on a list of length \<open>n\<close>: the indices \<open>0 .. n - 1\<close> read from
  the front, \<open>- n .. - 1\<close> from the end, and every other index raises \<open>IndexError\<close>.
\<close>

definition py_getitem :: "'a list \<Rightarrow> int \<Rightarrow> py_error + 'a" where
  "py_getitem xs i =
     (if 0 \<le> i \<and> i < int (length xs) then Inr (xs ! nat i)
      else if i < 0 \<and> - int (length xs) \<le> i then Inr (xs ! nat (int (length xs) + i))
      else Inl IndexError)"

text \<open>\<open>str(n)\<close> for an int, as \<open>f"{page_number}"\<close> formats it.\<close>

fun str_nat :: "nat \<Rightarrow> string" where
  "str_nat n =
     (if n < 10 then [''0123456789'' ! n]
      else str_nat (n div 10) @ [''0123456789'' ! (n mod 10)])"

definition str_int :: "int \<Rightarrow> string" where
  "str_int i = (if i < 0 then CHR ''-'' # str_nat (nat (- i)) else str_nat (nat i))"

text \<open>
  Strings are lists of 8-bit characters, read as the code points below 256 of a Python
  \<open>str\<close>. \<open>str.isspace\<close> holds there of the code points 9 to 13, 28 to 32, 133 and
  160, and \<open>str.strip()\<close> removes such characters from both ends.
\<close>

definition py_isspace :: "char \<Rightarrow> bool" where
  "py_isspace c =
     (let k = (of_char c :: nat)
      in (9 \<le> k \<and> k \<le> 13) \<or> (28 \<le> k \<and> k \<le> 32) \<or> k = 133 \<or> k = 160)"

definition strip :: "string \<Rightarrow> string" where
  "strip s = rev (dropWhile py_isspace (rev (dropWhile py_isspace s)))"

section \<open>Coordinate mapper: \<open>scale_bbox_to_pdf\<close>\<close>

type_synonym bbox = "number \<times> number \<times> number \<times> number"

type_synonym dims = "number \<times> number"

text \<open>
  \<open>scale_bbox_to_pdf(bbox, canvas_dims, pdf_dims)\<close>: the two divisions come first, in
  the order of the source, so a zero canvas width raises before the canvas height is looked
  at.
\<close>

definition scale_bbox_to_pdf :: "bbox \<Rightarrow> dims \<Rightarrow> dims \<Rightarrow> py_error + bbox" where
  "scale_bbox_to_pdf bbox canvas_dims pdf_dims =
     (case canvas_dims of (canvas_width, canvas_height) \<Rightarrow>
      case pdf_dims of (pdf_width, pdf_height) \<Rightarrow>
      case py_truediv pdf_width canvas_width of
        Inl e \<Rightarrow> Inl e
      | Inr scale_x \<Rightarrow>
          (case py_truediv pdf_height canvas_height of
             Inl e \<Rightarrow> Inl e
           | Inr scale_y \<Rightarrow>
               (case bbox of (x0, y0, x1, y1) \<Rightarrow>
                  Inr (x0 * scale_x, y0 * scale_y, x1 * scale_x, y1 * scale_y))))"

section \<open>Documents, pages and images\<close>

text \<open>
  The PDF library and the imaging library are outside the program. A page is modelled by
  what the program reads from it and by the outcomes of the library calls the program
  makes on it: its size in points, the image \<open>page.to_image().original\<close> (or the
  exception the rendering raises), and for every rectangle the outcome of
  \<open>page.within_bbox(rect).extract_text()\<close>: an exception, \<open>None\<close>, or a string.
  An image is its pixel size, together with the exception, if any, that
  \<open>resize\<close> raises for a requested size; a resize that does not raise gives an image
  of exactly the requested size.
\<close>

record pil_image =
  img_width :: int
  img_height :: int
  resize_exc :: "int \<times> int \<Rightarrow> py_error option"

record page =
  page_width :: number
  page_height :: number
  to_image :: "py_error + pil_image"
  within_bbox_extract_text :: "bbox \<Rightarrow> py_error + string option"

record pdf =
  pages :: "page list"

definition pil_resize :: "pil_image \<Rightarrow> int \<times> int \<Rightarrow> py_error + pil_image" where
  "pil_resize img sz =
     (case resize_exc img sz of
        Some e \<Rightarrow> Inl e
      | None \<Rightarrow> Inr (img\<lparr>img_width := fst sz, img_height := snd sz\<rparr>))"

section \<open>The user interface as a trace\<close>

text \<open>
  Every call into the UI toolkit is an event of a trace, with the arguments the program
  passes. The line \<open>Top-left: (..) | Bottom-right: (..)\<close> carries its four numbers
  unformatted (the \<open>.1f\<close> formatting of floats is not modelled). The calls of \<open>main\<close>
  to the four pipeline functions of the program are events as well, so that a trace tells
  which stages ran.
\<close>

datatype ui_event =
    St_title string
  | St_markdown string
  | St_sidebar_header string
  | St_sidebar_file_uploader string
  | St_sidebar_slider string int int int
  | St_write string
  | St_write_bbox number number number number
  | St_canvas pil_image int int
  | St_spinner string
  | St_text_area string string
  | St_download_button string string string string
  | St_warning string
  | St_info string
  | St_error string
  | Call_load_pdf
  | Call_extract_page_image int
  | Call_scale_bbox_to_pdf bbox
  | Call_extract_text_from_pdf bbox

section \<open>Page rasterizer: \<open>extract_page_image\<close>\<close>

text \<open>
  The body of the \<open>try\<close> block. The first exception ends it: the page lookup, the
  rendering, the two divisions (width first) and the resize, in this order. Lines 33 to 35
  are double arithmetic, and \<open>int(..)\<close> truncates the rounded product.
\<close>

definition extract_page_image_try ::
  "pdf \<Rightarrow> int \<Rightarrow> number \<Rightarrow> number \<Rightarrow> py_error + (pil_image \<times> (int \<times> int) \<times> dims)" where
  "extract_page_image_try pdf page_number max_width max_height =
     (case py_getitem (pages pdf) page_number of
        Inl e \<Rightarrow> Inl e
      | Inr page \<Rightarrow>
     (case to_image page of
        Inl e \<Rightarrow> Inl e
      | Inr img_pil \<Rightarrow>
     (case double_truediv max_width (of_int (img_width img_pil)) of
        Inl e \<Rightarrow> Inl e
      | Inr by_width \<Rightarrow>
     (case double_truediv max_height (of_int (img_height img_pil)) of
        Inl e \<Rightarrow> Inl e
      | Inr by_height \<Rightarrow>
          (let scale_factor = min by_width by_height;
               new_width = py_int (double_mul (of_int (img_width img_pil)) scale_factor);
               new_height = py_int (double_mul (of_int (img_height img_pil)) scale_factor)
           in case pil_resize img_pil (new_width, new_height) of
                Inl e \<Rightarrow> Inl e
              | Inr img_resized \<Rightarrow>
                  Inr (img_resized, (new_width, new_height),
                       (page_width page, page_height page)))))))"

text \<open>
  The \<open>except Exception\<close> clause turns every exception into an error notice and the
  result \<open>(None, None, None)\<close>, here \<open>None\<close>.
\<close>

definition extract_page_image ::
  "pdf \<Rightarrow> int \<Rightarrow> number \<Rightarrow> number \<Rightarrow>
   ui_event list \<times> (pil_image \<times> (int \<times> int) \<times> dims) option" where
  "extract_page_image pdf page_number max_width max_height =
     (case extract_page_image_try pdf page_number max_width max_height of
        Inl e \<Rightarrow> ([St_error (''Error processing page image: '' @ str_exc e)], None)
      | Inr r \<Rightarrow> ([], Some r))"

text \<open>
  The scale factor of line 33 and the pixel size \<open>(new_width, new_height)\<close> of lines 34
  and 35, as functions of the rendered image and the two bounds, when neither division
  raises.
\<close>

definition image_scale_factor :: "pil_image \<Rightarrow> number \<Rightarrow> number \<Rightarrow> number" where
  "image_scale_factor img_pil max_width max_height =
     min (to_double (max_width / of_int (img_width img_pil)))
         (to_double (max_height / of_int (img_height img_pil)))"

definition resized_dims :: "pil_image \<Rightarrow> number \<Rightarrow> number \<Rightarrow> int \<times> int" where
  "resized_dims img_pil max_width max_height =
     (let scale_factor = image_scale_factor img_pil max_width max_height
      in (py_int (double_mul (of_int (img_width img_pil)) scale_factor),
          py_int (double_mul (of_int (img_height img_pil)) scale_factor)))"

text \<open>
  The pixel size the specification describes for the rasterizer, in its words: one scale
  factor \<open>s = min (maxWidth / nativeW) (maxHeight / nativeH)\<close> and the size
  \<open>round (nativeW * s)\<close> by \<open>round (nativeH * s)\<close>, in the double arithmetic of
  the program, with Python's \<open>round\<close> (to the nearest int, ties to even).
\<close>

definition spec_rounded_dims :: "int \<Rightarrow> int \<Rightarrow> number \<Rightarrow> number \<Rightarrow> int \<times> int" where
  "spec_rounded_dims nativeW nativeH maxWidth maxHeight =
     (let s = min (to_double (maxWidth / of_int nativeW)) (to_double (maxHeight / of_int nativeH))
      in (round_half_even (to_double (of_int nativeW * s)),
          round_half_even (to_double (of_int nativeH * s))))"

text \<open>A one-page document whose page is 612 by 792 points and renders at 612 by 792 pixels.\<close>

definition letter_image :: pil_image where
  "letter_image = \<lparr>img_width = 612, img_height = 792, resize_exc = (\<lambda>sz. None)\<rparr>"

definition letter_page :: page where
  "letter_page =
     \<lparr>page_width = 612, page_height = 792, to_image = Inr letter_image,
      within_bbox_extract_text = (\<lambda>r. Inr (Some ''Hello''))\<rparr>"

definition letter_pdf :: pdf where
  "letter_pdf = \<lparr>pages = [letter_page]\<rparr>"





section \<open>Region text extractor: \<open>extract_text_from_pdf\<close>\<close>

text \<open>The header \<open>f"\n\n--- Page {page_number} ---\n"\<close> of a page's text.\<close>

definition page_header :: "nat \<Rightarrow> string" where
  "page_header page_number =
     ''\<newline>\<newline>--- Page '' @ str_nat page_number @ '' ---\<newline>''"

text \<open>
  The \<open>for\<close> loop over \<open>enumerate(pdf.pages, start=1)\<close>, with the counter and the
  accumulator \<open>all_text\<close> as arguments. \<open>if text:\<close> is false of \<open>None\<close> and of the
  empty string. An exception of the library call leaves the loop and the function.
\<close>

fun extract_text_loop :: "bbox \<Rightarrow> nat \<Rightarrow> page list \<Rightarrow> string \<Rightarrow> py_error + string" where
  "extract_text_loop scaled_bbox page_number [] all_text = Inr all_text"
| "extract_text_loop scaled_bbox page_number (page # rest) all_text =
     (case within_bbox_extract_text page scaled_bbox of
        Inl e \<Rightarrow> Inl e
      | Inr None \<Rightarrow> extract_text_loop scaled_bbox (Suc page_number) rest all_text
      | Inr (Some text) \<Rightarrow>
          extract_text_loop scaled_bbox (Suc page_number) rest
            (if text \<noteq> [] then all_text @ page_header page_number @ text else all_text))"

definition extract_text_from_pdf :: "pdf \<Rightarrow> bbox \<Rightarrow> py_error + string" where
  "extract_text_from_pdf pdf scaled_bbox = extract_text_loop scaled_bbox 1 (pages pdf) []"

text \<open>
  The result the specification describes, in its words: the pages in order, numbered from
  1; a page that yields no text contributes nothing; a page that yields text contributes
  its header followed by its text.
\<close>

definition spec_page_part :: "bbox \<Rightarrow> nat \<times> page \<Rightarrow> string" where
  "spec_page_part rect numbered =
     (case within_bbox_extract_text (snd numbered) rect of
        Inr (Some text) \<Rightarrow> if text = [] then [] else page_header (fst numbered) @ text
      | _ \<Rightarrow> [])"

definition spec_extract_text :: "pdf \<Rightarrow> bbox \<Rightarrow> string" where
  "spec_extract_text pdf rect =
     concat (map (spec_page_part rect) (zip [1 ..< Suc (length (pages pdf))] (pages pdf)))"

text \<open>A page yields text for a rectangle when the library call returns a non-empty string.\<close>

definition yields_text :: "bbox \<Rightarrow> page \<Rightarrow> bool" where
  "yields_text rect page =
     (case within_bbox_extract_text page rect of
        Inr (Some text) \<Rightarrow> text \<noteq> []
      | _ \<Rightarrow> False)"

definition raises :: "bbox \<Rightarrow> page \<Rightarrow> bool" where
  "raises rect page =
     (case within_bbox_extract_text page rect of Inl e \<Rightarrow> True | Inr t \<Rightarrow> False)"

section \<open>Document loader and \<open>main\<close>\<close>

type_synonym upload = string

record canvas_object =
  obj_left :: number
  obj_top :: number
  obj_width :: number
  obj_height :: number

text \<open>
  One run of \<open>main\<close> is determined by what the UI and the PDF library hand to it: the
  uploaded file (or \<open>None\<close>), the outcome of \<open>pdfplumber.open\<close> on a file, the outcome
  of the page slider for its bounds and default, and the \<open>json_data\<close> of the canvas
  (\<open>None\<close>, or its list of objects).
\<close>

record session =
  uploaded_pdf :: "upload option"
  pdfplumber_open :: "upload \<Rightarrow> py_error + pdf"
  sidebar_slider :: "int \<Rightarrow> int \<Rightarrow> int \<Rightarrow> py_error + int"
  canvas_json_data :: "canvas_object list option"

definition load_pdf :: "(upload \<Rightarrow> py_error + pdf) \<Rightarrow> upload \<Rightarrow> ui_event list \<times> pdf option" where
  "load_pdf opener pdf_file =
     (case opener pdf_file of
        Inr pdf \<Rightarrow> ([], Some pdf)
      | Inl e \<Rightarrow> ([St_error (''Failed to load PDF: '' @ str_exc e)], None))"

text \<open>
  A run of \<open>main\<close> gives its trace and \<open>None\<close> when it ends normally, or the
  exception that ended it: \<open>main\<close> has no handler of its own.
\<close>

type_synonym run = "ui_event list \<times> py_error option"

definition after :: "ui_event list \<Rightarrow> run \<Rightarrow> run" where
  "after evs r = (evs @ fst r, snd r)"

text \<open>Lines 113 to 123: what is shown for an extracted text.\<close>

definition show_extracted_text :: "string \<Rightarrow> ui_event list" where
  "show_extracted_text extracted_text =
     (if strip extracted_text \<noteq> [] then
        [St_write ''Extracted Text'',
         St_text_area ''Text from the selected area:'' extracted_text,
         St_download_button ''Download Extracted Text'' extracted_text
           ''extracted_text.txt'' ''text/plain'']
      else [St_warning ''No text found in the selected area across all pages.''])"

text \<open>Lines 99 to 123: the last drawn object is scaled and the text extracted.\<close>

definition process_bounding_box ::
  "pdf \<Rightarrow> int \<times> int \<Rightarrow> dims \<Rightarrow> canvas_object \<Rightarrow> run" where
  "process_bounding_box pdf canvas_dims pdf_dims last_object =
     (let x0 = obj_left last_object; y0 = obj_top last_object;
          x1 = x0 + obj_width last_object; y1 = y0 + obj_height last_object
      in after [St_write ''Bounding Box Coordinates'', St_write_bbox x0 y0 x1 y1,
                Call_scale_bbox_to_pdf (x0, y0, x1, y1)]
           (case scale_bbox_to_pdf (x0, y0, x1, y1)
                   (of_int (fst canvas_dims), of_int (snd canvas_dims)) pdf_dims of
              Inl e \<Rightarrow> ([], Some e)
            | Inr scaled_bbox \<Rightarrow>
                after [St_spinner ''Extracting text from PDF...'',
                       Call_extract_text_from_pdf scaled_bbox]
                  (case extract_text_from_pdf pdf scaled_bbox of
                     Inl e \<Rightarrow> ([], Some e)
                   | Inr extracted_text \<Rightarrow> (show_extracted_text extracted_text, None))))"

text \<open>Lines 78 to 127: the run once the document is loaded.\<close>

definition main_with_pdf :: "session \<Rightarrow> pdf \<Rightarrow> run" where
  "main_with_pdf ses pdf =
     (let total_pages = int (length (pages pdf))
      in after [St_sidebar_slider ''Select Page Number'' 1 total_pages 1]
           (case sidebar_slider ses 1 total_pages 1 of
              Inl e \<Rightarrow> ([], Some e)
            | Inr chosen \<Rightarrow>
                (let page_number = chosen - 1
                 in after (Call_extract_page_image page_number #
                           fst (extract_page_image pdf page_number 800 1000))
                      (case snd (extract_page_image pdf page_number 800 1000) of
                         None \<Rightarrow> ([St_error ''Failed to process the selected page.''], None)
                       | Some (img_pil, canvas_dims, pdf_dims) \<Rightarrow>
                           after [St_write (''Page '' @ str_int (page_number + 1) @
                                    '': Draw a bounding box to select text''),
                                  St_canvas img_pil (fst canvas_dims) (snd canvas_dims)]
                             (case canvas_json_data ses of
                                None \<Rightarrow> ([St_info ''Draw a bounding box to select text.''], None)
                              | Some [] \<Rightarrow>
                                  ([St_info ''Draw a bounding box to select text.''], None)
                              | Some (obj # objs) \<Rightarrow>
                                  process_bounding_box pdf canvas_dims pdf_dims
                                    (last (obj # objs)))))))"

definition main :: "session \<Rightarrow> run" where
  "main ses =
     after [St_title ''PDF Text Extractor'',
            St_markdown
              ''Upload a PDF, draw a bounding box, and extract text from the selected area.'',
            St_sidebar_header ''Upload your files here'',
            St_sidebar_file_uploader ''Select a PDF'']
       (case uploaded_pdf ses of
          None \<Rightarrow> ([St_info ''Upload a PDF file to start extracting text.''], None)
        | Some pdf_file \<Rightarrow>
            after (Call_load_pdf # fst (load_pdf (pdfplumber_open ses) pdf_file))
              (case snd (load_pdf (pdfplumber_open ses) pdf_file) of
                 None \<Rightarrow> ([St_error ''Invalid PDF file. Please try again.''], None)
               | Some pdf \<Rightarrow> main_with_pdf ses pdf))"

section \<open>Traces of \<open>main\<close> and sample sessions\<close>

text \<open>The four events every run of \<open>main\<close> starts with (lines 67 to 72).\<close>

definition main_head :: "ui_event list" where
  "main_head =
     [St_title ''PDF Text Extractor'',
      St_markdown
        ''Upload a PDF, draw a bounding box, and extract text from the selected area.'',
      St_sidebar_header ''Upload your files here'',
      St_sidebar_file_uploader ''Select a PDF'']"

text \<open>The rectangle \<open>(x0, y0, x1, y1)\<close> that lines 100 and 101 read off a drawn object.\<close>

definition drawn_bbox :: "canvas_object \<Rightarrow> bbox" where
  "drawn_bbox obj =
     (obj_left obj, obj_top obj, obj_left obj + obj_width obj, obj_top obj + obj_height obj)"

text \<open>
  The events of a run of \<open>main\<close> up to and including the call of
  \<open>extract_text_from_pdf\<close>, for a run that gets there.
\<close>

definition extraction_prefix :: "pdf \<Rightarrow> int \<Rightarrow> pil_image \<Rightarrow> int \<times> int \<Rightarrow> bbox \<Rightarrow> bbox \<Rightarrow> ui_event list" where
  "extraction_prefix pdf chosen img_pil canvas_dims box scaled_bbox =
     main_head @
     [Call_load_pdf,
      St_sidebar_slider ''Select Page Number'' 1 (int (length (pages pdf))) 1,
      Call_extract_page_image (chosen - 1),
      St_write (''Page '' @ str_int (chosen - 1 + 1) @ '': Draw a bounding box to select text''),
      St_canvas img_pil (fst canvas_dims) (snd canvas_dims),
      St_write ''Bounding Box Coordinates'',
      St_write_bbox (fst box) (fst (snd box)) (fst (snd (snd box))) (snd (snd (snd box))),
      Call_scale_bbox_to_pdf box,
      St_spinner ''Extracting text from PDF...'',
      Call_extract_text_from_pdf scaled_bbox]"

text \<open>
  Sample inputs: a page with no text, a document of two such pages, a document of that
  page followed by a page with the text \<open>Hello\<close>, a drawn box, a session on the blank
  document and a session whose upload the PDF library rejects.
\<close>

definition blank_page :: page where
  "blank_page =
     \<lparr>page_width = 612, page_height = 792, to_image = Inr letter_image,
      within_bbox_extract_text = (\<lambda>r. Inr (Some []))\<rparr>"

definition blank_pdf :: pdf where
  "blank_pdf = \<lparr>pages = [blank_page, blank_page]\<rparr>"

definition two_page_pdf :: pdf where
  "two_page_pdf = \<lparr>pages = [blank_page, letter_page]\<rparr>"

definition drawn_box :: canvas_object where
  "drawn_box = \<lparr>obj_left = 100, obj_top = 100, obj_width = 200, obj_height = 100\<rparr>"

definition blank_session :: session where
  "blank_session =
     \<lparr>uploaded_pdf = Some ''blank.pdf'', pdfplumber_open = (\<lambda>f. Inr blank_pdf),
      sidebar_slider = (\<lambda>lo hi v. Inr v), canvas_json_data = Some [drawn_box]\<rparr>"

definition broken_session :: session where
  "broken_session =
     \<lparr>uploaded_pdf = Some ''not a pdf'',
      pdfplumber_open = (\<lambda>f. Inl (Raised ''No /Root object! - Is this really a PDF?'')),
      sidebar_slider = (\<lambda>lo hi v. Inr v), canvas_json_data = None\<rparr>"

section \<open>Properties of the coordinate mapper\<close>

lemma scale_bbox_to_pdf_nonzero:
  "canvas_width \<noteq> 0 \<Longrightarrow> canvas_height \<noteq> 0 \<Longrightarrow>
   scale_bbox_to_pdf (x0, y0, x1, y1) (canvas_width, canvas_height) (pdf_width, pdf_height) =
     Inr (x0 * (pdf_width / canvas_width), y0 * (pdf_height / canvas_height),
          x1 * (pdf_width / canvas_width), y1 * (pdf_height / canvas_height))"
  by (simp add: scale_bbox_to_pdf_def py_truediv_def)

text \<open>
  C1. For every bounding box \<open>(x0, y0, x1, y1)\<close>, every pair of canvas dimensions with
  both components non-zero and every pair of point dimensions, \<open>scale_bbox_to_pdf\<close>
  returns (it does not raise) exactly
  \<open>(x0 * scaleX, y0 * scaleY, x1 * scaleX, y1 * scaleY)\<close> with
  \<open>scaleX = pointW / pixelW\<close> and \<open>scaleY = pointH / pixelH\<close>: each coordinate is
  scaled by the factor of its own axis. The function is pure: its result is a function of
  its three arguments alone.
\<close>

theorem scale_bbox_to_pdf_formula:
  assumes "pixelW \<noteq> 0" and "pixelH \<noteq> 0"
  shows "scale_bbox_to_pdf (x0, y0, x1, y1) (pixelW, pixelH) (pointW, pointH) =
           (let scaleX = pointW / pixelW; scaleY = pointH / pixelH
            in Inr (x0 * scaleX, y0 * scaleY, x1 * scaleX, y1 * scaleY))"
  using assms by (simp add: scale_bbox_to_pdf_nonzero)

theorem scale_bbox_to_pdf_formula_witness:
  "(619::number) \<noteq> 0 \<and> (800::number) \<noteq> 0 \<and>
   scale_bbox_to_pdf (100, 100, 300, 200) (619, 800) (612, 792) =
     Inr (61200 / 619, 99, 183600 / 619, 198)"
  using scale_bbox_to_pdf_formula [of 619 800 100 100 300 200 612 792] by simp

text \<open>
  C4. Round trip. For every pixel rectangle \<open>R\<close> and every pair of dimension tuples
  with all four components non-zero, mapping \<open>R\<close> with \<open>(pixelDims, pointDims)\<close> and
  mapping the result with the two tuples swapped returns \<open>R\<close> again: exactly, in the
  exact arithmetic of the model. Neither call raises.
\<close>

theorem scale_bbox_to_pdf_round_trip:
  assumes "pixelW \<noteq> 0" and "pixelH \<noteq> 0" and "pointW \<noteq> 0" and "pointH \<noteq> 0"
  shows "\<exists>P. scale_bbox_to_pdf R (pixelW, pixelH) (pointW, pointH) = Inr P \<and>
             scale_bbox_to_pdf P (pointW, pointH) (pixelW, pixelH) = Inr R"
proof -
  obtain x0 y0 x1 y1 where R: "R = (x0, y0, x1, y1)"
    by (cases R) auto
  let ?P = "(x0 * (pointW / pixelW), y0 * (pointH / pixelH),
             x1 * (pointW / pixelW), y1 * (pointH / pixelH))"
  have forward_call: "scale_bbox_to_pdf R (pixelW, pixelH) (pointW, pointH) = Inr ?P"
    using assms by (simp add: R scale_bbox_to_pdf_nonzero)
  have inverse_call: "scale_bbox_to_pdf ?P (pointW, pointH) (pixelW, pixelH) = Inr R"
    using assms by (simp add: R scale_bbox_to_pdf_nonzero)
  from forward_call inverse_call show ?thesis by blast
qed

theorem scale_bbox_to_pdf_round_trip_witness:
  "(619::number) \<noteq> 0 \<and> (800::number) \<noteq> 0 \<and> (612::number) \<noteq> 0 \<and> (792::number) \<noteq> 0 \<and>
   (\<exists>P. scale_bbox_to_pdf (100, 100, 300, 200) (619, 800) (612, 792) = Inr P \<and>
        scale_bbox_to_pdf P (612, 792) (619, 800) = Inr (100, 100, 300, 200))"
  using scale_bbox_to_pdf_round_trip [of 619 800 612 792 "(100, 100, 300, 200)"] by simp

text \<open>
  C9. \<open>scale_bbox_to_pdf\<close> preserves normalisation. For every rectangle with
  \<open>x0 \<le> x1\<close> and \<open>y0 \<le> y1\<close> and all four dimension components positive, the call
  returns a rectangle with \<open>x0' \<le> x1'\<close> and \<open>y0' \<le> y1'\<close>; a rectangle that is
  degenerate on an axis (\<open>x0 = x1\<close>, or \<open>y0 = y1\<close>) is mapped to one that is degenerate
  on the same axis.
\<close>

theorem scale_bbox_to_pdf_normalized:
  assumes "x0 \<le> x1" and "y0 \<le> y1"
    and "0 < canvas_width" and "0 < canvas_height" and "0 < pdf_width" and "0 < pdf_height"
  shows "\<exists>x0' y0' x1' y1'.
           scale_bbox_to_pdf (x0, y0, x1, y1) (canvas_width, canvas_height)
             (pdf_width, pdf_height) = Inr (x0', y0', x1', y1') \<and>
           x0' \<le> x1' \<and> y0' \<le> y1' \<and>
           (x0 = x1 \<longrightarrow> x0' = x1') \<and> (y0 = y1 \<longrightarrow> y0' = y1')"
proof -
  have sx: "0 \<le> pdf_width / canvas_width" and sy: "0 \<le> pdf_height / canvas_height"
    using assms by simp_all
  have "x0 * (pdf_width / canvas_width) \<le> x1 * (pdf_width / canvas_width)"
    using assms(1) sx by (rule mult_right_mono)
  moreover have "y0 * (pdf_height / canvas_height) \<le> y1 * (pdf_height / canvas_height)"
    using assms(2) sy by (rule mult_right_mono)
  ultimately show ?thesis
    using assms by (simp add: scale_bbox_to_pdf_nonzero)
qed

theorem scale_bbox_to_pdf_normalized_witness:
  "(100::number) \<le> 300 \<and> (200::number) \<le> 200 \<and>
   (0::number) < 619 \<and> (0::number) < 800 \<and> (0::number) < 612 \<and> (0::number) < 792 \<and>
   (\<exists>x0' y0' x1' y1'.
      scale_bbox_to_pdf (100, 200, 300, 200) (619, 800) (612, 792) = Inr (x0', y0', x1', y1') \<and>
      x0' \<le> x1' \<and> y0' \<le> y1' \<and>
      ((100::number) = 300 \<longrightarrow> x0' = x1') \<and> ((200::number) = 200 \<longrightarrow> y0' = y1'))"
  using scale_bbox_to_pdf_normalized [of 100 300 200 200 619 800 612 792] by simp

section \<open>Properties of the double arithmetic\<close>

lemma bitlen_powi:
  assumes "0 < n"
  shows "(2::rat) powi (bitlen n - 1) \<le> of_int n" and "of_int n < (2::rat) powi bitlen n"
proof -
  have b: "1 \<le> bitlen n"
    using assms by (simp add: bitlen_alt_def)
  have lo: "2 ^ nat (bitlen n - 1) \<le> n" and hi: "n < 2 ^ nat (bitlen n)"
    using bitlen_bounds [OF assms] by simp_all
  have "(of_int (2 ^ nat (bitlen n - 1)) :: rat) \<le> of_int n"
    using lo by (simp only: of_int_le_iff)
  then show "(2::rat) powi (bitlen n - 1) \<le> of_int n"
    using b by (simp add: power_int_def)
  have "(of_int n :: rat) < of_int (2 ^ nat (bitlen n))"
    using hi by (simp only: of_int_less_iff)
  then show "of_int n < (2::rat) powi bitlen n"
    using b by (simp add: power_int_def)
qed

lemma ilog2_bounds:
  assumes "0 < x"
  shows "2 powi ilog2 x \<le> x" and "x < 2 powi (ilog2 x + 1)"
proof -
  obtain p q where pq: "quotient_of x = (p, q)"
    by (cases "quotient_of x") auto
  have q: "0 < q"
    using pq by (rule quotient_of_denom_pos)
  have x: "x = of_int p / of_int q"
    using pq by (rule quotient_of_div)
  have p: "0 < p"
    using assms q by (simp add: x zero_less_divide_iff)
  let ?d = "bitlen p - bitlen q"
  have qr: "(0::rat) < of_int q"
    using q by simp
  have "x * of_int q = of_int p"
    using qr by (simp add: x)
  have up: "x < 2 powi (?d + 1)"
  proof -
    have "of_int p < (2::rat) powi bitlen p"
      using p by (rule bitlen_powi)
    also have "\<dots> = 2 powi (?d + 1) * 2 powi (bitlen q - 1)"
      by (simp flip: power_int_add)
    also have "\<dots> \<le> 2 powi (?d + 1) * of_int q"
      using bitlen_powi(1) [OF q] by (simp add: mult_left_mono)
    finally show ?thesis
      using qr by (simp add: x pos_divide_less_eq)
  qed
  have low: "2 powi (?d - 1) \<le> x"
  proof -
    have "(2::rat) powi (?d - 1) * of_int q \<le> 2 powi (?d - 1) * 2 powi bitlen q"
      using bitlen_powi(2) [OF q] by (simp add: mult_left_mono less_imp_le)
    also have "\<dots> = 2 powi (bitlen p - 1)"
      by (simp flip: power_int_add)
    also have "\<dots> \<le> of_int p"
      using p by (rule bitlen_powi)
    finally show ?thesis
      using qr by (simp add: x pos_le_divide_eq)
  qed
  show "2 powi ilog2 x \<le> x"
    using low by (simp add: ilog2_def pq Let_def)
  show "x < 2 powi (ilog2 x + 1)"
    using up by (auto simp: ilog2_def pq Let_def not_le)
qed

lemma ilog2_less:
  assumes "0 < x" and "x < 2 powi n"
  shows "ilog2 x < n"
proof (rule ccontr)
  assume "\<not> ilog2 x < n"
  then have "(2::rat) powi n \<le> 2 powi ilog2 x"
    by (simp add: power_int_increasing)
  also have "\<dots> \<le> x"
    using assms(1) by (rule ilog2_bounds)
  finally show False
    using assms(2) by simp
qed

lemma ilog2_ge:
  assumes "0 < x" and "2 powi n \<le> x"
  shows "n \<le> ilog2 x"
proof (rule ccontr)
  assume "\<not> n \<le> ilog2 x"
  then have "ilog2 x + 1 \<le> n"
    by simp
  then have "(2::rat) powi (ilog2 x + 1) \<le> 2 powi n"
    by (simp add: power_int_increasing)
  moreover have "x < 2 powi (ilog2 x + 1)"
    using assms(1) by (rule ilog2_bounds)
  ultimately show False
    using assms(2) by simp
qed

lemma round_half_even_bounds:
  shows "\<lfloor>z\<rfloor> \<le> round_half_even z"
    "round_half_even z \<le> \<lceil>z\<rceil>"
    "\<bar>of_int (round_half_even z) - z\<bar> \<le> 1 / 2"
proof -
  show "\<lfloor>z\<rfloor> \<le> round_half_even z"
    by (simp add: round_half_even_def Let_def)
  show "round_half_even z \<le> \<lceil>z\<rceil>"
    by (auto simp: round_half_even_def Let_def ceiling_altdef)
  have lo: "of_int \<lfloor>z\<rfloor> \<le> z" and hi: "z < of_int \<lfloor>z\<rfloor> + 1"
    by linarith+
  consider "z - of_int \<lfloor>z\<rfloor> < 1 / 2" | "1 / 2 < z - of_int \<lfloor>z\<rfloor>"
    | "z - of_int \<lfloor>z\<rfloor> = 1 / 2"
    by linarith
  then show "\<bar>of_int (round_half_even z) - z\<bar> \<le> 1 / 2"
  proof cases
    case 1
    then have "round_half_even z = \<lfloor>z\<rfloor>"
      by (simp add: round_half_even_def Let_def)
    with 1 lo show ?thesis by simp
  next
    case 2
    then have "round_half_even z = \<lfloor>z\<rfloor> + 1"
      by (simp add: round_half_even_def Let_def)
    with 2 hi show ?thesis by simp
  next
    case 3
    then have "round_half_even z = \<lfloor>z\<rfloor> \<or> round_half_even z = \<lfloor>z\<rfloor> + 1"
      by (simp add: round_half_even_def Let_def)
    with 3 show ?thesis by auto
  qed
qed


lemma to_double_le_grid:
  assumes "x \<le> of_int n * 2 powi double_exponent x"
  shows "to_double x \<le> of_int n * 2 powi double_exponent x"
proof (cases "x = 0")
  case True
  with assms show ?thesis by (simp add: to_double_def)
next
  case False
  let ?P = "(2::rat) powi double_exponent x"
  have P: "0 < ?P" by simp
  have "x / ?P \<le> of_int n"
    using assms P by (simp add: pos_divide_le_eq)
  then have "\<lceil>x / ?P\<rceil> \<le> n"
    by (simp add: ceiling_le_iff)
  with round_half_even_bounds(2) [of "x / ?P"] have "round_half_even (x / ?P) \<le> n"
    by linarith
  then have "(of_int (round_half_even (x / ?P)) :: rat) \<le> of_int n"
    by (simp only: of_int_le_iff)
  then have "of_int (round_half_even (x / ?P)) * ?P \<le> of_int n * ?P"
    using P by (simp add: mult_right_mono)
  with False show ?thesis by (simp add: to_double_def)
qed

lemma to_double_ge_grid:
  assumes "of_int n * 2 powi double_exponent x \<le> x"
  shows "of_int n * 2 powi double_exponent x \<le> to_double x"
proof (cases "x = 0")
  case True
  with assms show ?thesis by (simp add: to_double_def)
next
  case False
  let ?P = "(2::rat) powi double_exponent x"
  have P: "0 < ?P" by simp
  have "of_int n \<le> x / ?P"
    using assms P by (simp add: pos_le_divide_eq)
  then have "n \<le> \<lfloor>x / ?P\<rfloor>"
    by (simp add: le_floor_iff)
  with round_half_even_bounds(1) [of "x / ?P"] have "n \<le> round_half_even (x / ?P)"
    by linarith
  then have "(of_int n :: rat) \<le> of_int (round_half_even (x / ?P))"
    by (simp only: of_int_le_iff)
  then have "of_int n * ?P \<le> of_int (round_half_even (x / ?P)) * ?P"
    using P by (simp add: mult_right_mono)
  with False show ?thesis by (simp add: to_double_def)
qed

lemma to_double_nonneg:
  assumes "0 \<le> x"
  shows "0 \<le> to_double x"
  using to_double_ge_grid [of 0 x] assms by simp

lemma on_grid:
  assumes "e \<le> e'"
  shows "of_int n * (2::rat) powi e' = of_int (n * 2 ^ nat (e' - e)) * 2 powi e"
proof -
  have "(2::rat) powi e' = 2 powi (e' - e) * 2 powi e"
    by (simp flip: power_int_add)
  also have "(2::rat) powi (e' - e) = 2 ^ nat (e' - e)"
    using assms by (simp add: power_int_def)
  finally show ?thesis by simp
qed

lemma double_exponent_le:
  assumes "0 < x" and "x < 2 powi N" and "- 1021 \<le> N"
  shows "double_exponent x \<le> N - 53"
proof -
  have "ilog2 x < N"
    using assms(1,2) by (rule ilog2_less)
  with assms(1,3) show ?thesis
    by (simp add: double_exponent_def)
qed

lemma to_double_floor_ceiling:
  assumes "0 < x" and "x < 2 ^ 53"
  shows "of_int \<lfloor>x\<rfloor> \<le> to_double x" and "to_double x \<le> of_int \<lceil>x\<rceil>"
proof -
  have "x < 2 powi 53"
    using assms(2) by simp
  with assms(1) have e: "double_exponent x \<le> 0"
    using double_exponent_le [of x 53] by simp
  have grid: "(of_int n :: rat) = of_int (n * 2 ^ nat (0 - double_exponent x)) * 2 powi double_exponent x"
    for n
    using on_grid [OF e, of n] by simp
  have "of_int (\<lfloor>x\<rfloor> * 2 ^ nat (0 - double_exponent x)) * 2 powi double_exponent x \<le> x"
    by (simp only: flip: grid) simp
  then have "of_int (\<lfloor>x\<rfloor> * 2 ^ nat (0 - double_exponent x)) * 2 powi double_exponent x \<le> to_double x"
    by (rule to_double_ge_grid)
  then show "of_int \<lfloor>x\<rfloor> \<le> to_double x"
    by (simp only: flip: grid)
  have "x \<le> of_int (\<lceil>x\<rceil> * 2 ^ nat (0 - double_exponent x)) * 2 powi double_exponent x"
    by (simp only: flip: grid) simp
  then have "to_double x \<le> of_int (\<lceil>x\<rceil> * 2 ^ nat (0 - double_exponent x)) * 2 powi double_exponent x"
    by (rule to_double_le_grid)
  then show "to_double x \<le> of_int \<lceil>x\<rceil>"
    by (simp only: flip: grid)
qed


lemma to_double_error:
  assumes "2 powi (- 1022) \<le> x"
  shows "\<bar>to_double x - x\<bar> \<le> x / 2 ^ 53"
proof -
  have x: "0 < x"
    using assms by (rule less_le_trans [rotated]) simp
  have k: "- 1022 \<le> ilog2 x"
    using x assms by (rule ilog2_ge)
  have e: "double_exponent x = ilog2 x - 52"
    using x k by (simp add: double_exponent_def)
  let ?P = "(2::rat) powi double_exponent x"
  have P: "0 < ?P" by simp
  have "?P = 2 powi ilog2 x / 2 ^ 52"
    by (simp add: e power_int_diff)
  also have "\<dots> \<le> x / 2 ^ 52"
    using ilog2_bounds(1) [OF x] by (simp add: divide_right_mono)
  finally have Px: "?P \<le> x / 2 ^ 52" .
  have "to_double x - x = (of_int (round_half_even (x / ?P)) - x / ?P) * ?P"
    using x P by (simp add: to_double_def field_simps)
  then have "\<bar>to_double x - x\<bar> = \<bar>of_int (round_half_even (x / ?P)) - x / ?P\<bar> * ?P"
    using P by (simp add: abs_mult)
  also have "\<dots> \<le> 1 / 2 * ?P"
    using round_half_even_bounds(3) [of "x / ?P"] P by (simp add: mult_right_mono)
  also have "\<dots> \<le> 1 / 2 * (x / 2 ^ 52)"
    using Px by simp
  also have "\<dots> = x / 2 ^ 53"
    by simp
  finally show ?thesis .
qed

lemma to_double_pos:
  assumes "2 powi (- 1022) \<le> x"
  shows "0 < to_double x"
proof -
  have x: "0 < x"
    using assms by (rule less_le_trans [rotated]) simp
  have "x / 2 ^ 53 < x"
    using x by (simp add: field_simps)
  with to_double_error [OF assms] show ?thesis
    by linarith
qed

section \<open>Properties of the page rasterizer\<close>

lemma py_int_to_double:
  assumes "0 \<le> x"
  shows "py_int (to_double x) = \<lfloor>to_double x\<rfloor>"
  using to_double_nonneg [OF assms] by (simp add: py_int_def)

lemma extract_page_image_try_dims:
  assumes "py_getitem (pages pdf) page_number = Inr page"
    and "to_image page = Inr img"
    and "img_width img \<noteq> 0" and "img_height img \<noteq> 0"
  shows "extract_page_image_try pdf page_number max_width max_height =
           (case resize_exc img (resized_dims img max_width max_height) of
              None \<Rightarrow>
                Inr (img\<lparr>img_width := fst (resized_dims img max_width max_height),
                         img_height := snd (resized_dims img max_width max_height)\<rparr>,
                     resized_dims img max_width max_height,
                     (page_width page, page_height page))
            | Some e \<Rightarrow> Inl e)"
  using assms
  by (simp add: extract_page_image_try_def double_truediv_def pil_resize_def resized_dims_def
      image_scale_factor_def Let_def split: option.splits)

lemma extract_page_image_success:
  assumes "py_getitem (pages pdf) page_number = Inr page"
    and "to_image page = Inr img"
    and "img_width img \<noteq> 0" and "img_height img \<noteq> 0"
    and "resize_exc img (resized_dims img max_width max_height) = None"
  shows "extract_page_image pdf page_number max_width max_height =
           ([], Some (img\<lparr>img_width := fst (resized_dims img max_width max_height),
                          img_height := snd (resized_dims img max_width max_height)\<rparr>,
                      resized_dims img max_width max_height,
                      (page_width page, page_height page)))"
  by (simp add: extract_page_image_def extract_page_image_try_dims [OF assms(1-4)] assms(5))

lemma image_scale_factor_nonneg:
  assumes "0 < img_width img" and "0 < img_height img" and "0 < max_width" and "0 < max_height"
  shows "0 \<le> image_scale_factor img max_width max_height"
proof -
  have "0 \<le> to_double (max_width / of_int (img_width img))"
    using assms by (intro to_double_nonneg) simp
  moreover have "0 \<le> to_double (max_height / of_int (img_height img))"
    using assms by (intro to_double_nonneg) simp
  ultimately show ?thesis
    by (simp add: image_scale_factor_def)
qed

lemma resized_dims_floor:
  assumes "0 < img_width img" and "0 < img_height img" and "0 < max_width" and "0 < max_height"
  shows "resized_dims img max_width max_height =
           (\<lfloor>to_double (of_int (img_width img) * image_scale_factor img max_width max_height)\<rfloor>,
            \<lfloor>to_double (of_int (img_height img) * image_scale_factor img max_width max_height)\<rfloor>)"
proof -
  have s: "0 \<le> image_scale_factor img max_width max_height"
    using assms by (rule image_scale_factor_nonneg)
  have "0 \<le> of_int (img_width img) * image_scale_factor img max_width max_height"
    using assms(1) s by simp
  moreover have "0 \<le> of_int (img_height img) * image_scale_factor img max_width max_height"
    using assms(2) s by simp
  ultimately show ?thesis
    by (simp add: resized_dims_def double_mul_def Let_def py_int_to_double)
qed

text \<open>
  The quotient of a bound of at least one pixel by an image size below \<open>2 ^ 31\<close> is a
  normal double: its rounding is positive and exceeds it by at most one part in
  \<open>2 ^ 53\<close>.
\<close>

lemma bound_quotient:
  fixes n :: int and bound :: number
  assumes "0 < n" and "n < 2 ^ 31" and "1 \<le> bound"
  shows "0 < to_double (bound / of_int n)"
    "of_int n * to_double (bound / of_int n) \<le> bound + bound / 2 ^ 53"
proof -
  let ?q = "bound / of_int n"
  have n: "(0::rat) < of_int n" and n31: "(of_int n :: rat) \<le> 2 ^ 31"
    using assms(1,2) by (simp_all add: less_imp_le flip: of_int_less_iff of_int_le_iff)
  have "(1::rat) / 2 ^ 31 \<le> 1 / of_int n"
    using n n31 by (simp add: frac_le)
  also have "\<dots> \<le> ?q"
    using assms(3) n by (simp add: divide_right_mono)
  finally have q31: "1 / 2 ^ 31 \<le> ?q" .
  have "(2::rat) powi (- 1022) \<le> 2 powi (- 31)"
    by (rule power_int_increasing) simp_all
  then have "(2::rat) powi (- 1022) \<le> 1 / 2 ^ 31"
    by (simp only: power_int_minus_divide power_int_numeral)
  with q31 have normal: "2 powi (- 1022) \<le> ?q"
    by (rule order_trans [rotated])
  show "0 < to_double ?q"
    using normal by (rule to_double_pos)
  have le: "to_double ?q \<le> ?q + ?q / 2 ^ 53"
    using to_double_error [OF normal] by linarith
  have "of_int n * to_double ?q \<le> of_int n * (?q + ?q / 2 ^ 53)"
    by (rule mult_left_mono [OF le]) (use n in simp)
  also have "\<dots> = bound + bound / 2 ^ 53"
    using n by (simp add: field_simps)
  finally show "of_int n * to_double ?q \<le> bound + bound / 2 ^ 53" .
qed

lemma image_scale_factor_pos:
  assumes "0 < img_width img" and "img_width img < 2 ^ 31"
    and "0 < img_height img" and "img_height img < 2 ^ 31"
    and "1 \<le> max_width" and "1 \<le> max_height"
  shows "0 < image_scale_factor img max_width max_height"
  using bound_quotient(1) [OF assms(1,2,5)] bound_quotient(1) [OF assms(3,4,6)]
  by (simp add: image_scale_factor_def)

lemma scaled_width_le:
  assumes "0 < img_width img" and "img_width img < 2 ^ 31" and "1 \<le> max_width"
  shows "of_int (img_width img) * image_scale_factor img max_width max_height
           \<le> max_width + max_width / 2 ^ 53"
proof -
  have "image_scale_factor img max_width max_height
          \<le> to_double (max_width / of_int (img_width img))"
    by (simp add: image_scale_factor_def)
  then have "of_int (img_width img) * image_scale_factor img max_width max_height
          \<le> of_int (img_width img) * to_double (max_width / of_int (img_width img))"
    using assms(1) by (simp add: mult_left_mono)
  also have "\<dots> \<le> max_width + max_width / 2 ^ 53"
    using assms by (rule bound_quotient)
  finally show ?thesis .
qed

lemma scaled_height_le:
  assumes "0 < img_height img" and "img_height img < 2 ^ 31" and "1 \<le> max_height"
  shows "of_int (img_height img) * image_scale_factor img max_width max_height
           \<le> max_height + max_height / 2 ^ 53"
proof -
  have "image_scale_factor img max_width max_height
          \<le> to_double (max_height / of_int (img_height img))"
    by (simp add: image_scale_factor_def)
  then have "of_int (img_height img) * image_scale_factor img max_width max_height
          \<le> of_int (img_height img) * to_double (max_height / of_int (img_height img))"
    using assms(1) by (simp add: mult_left_mono)
  also have "\<dots> \<le> max_height + max_height / 2 ^ 53"
    using assms by (rule bound_quotient)
  finally show ?thesis .
qed

text \<open>
  A positive product below \<open>2 ^ 52\<close> that is rounded and then truncated lands on the
  integer below or on the integer above the exact product: less than one pixel away.
\<close>

lemma truncated_product_near:
  assumes "0 < x" and "x < 2 ^ 52"
  shows "- 1 < x - of_int \<lfloor>to_double x\<rfloor>" and "x - of_int \<lfloor>to_double x\<rfloor> < 1"
proof -
  have x53: "x < 2 ^ 53"
    using assms(2) by simp
  have "of_int \<lfloor>x\<rfloor> \<le> to_double x"
    using assms(1) x53 by (rule to_double_floor_ceiling)
  then have lo: "\<lfloor>x\<rfloor> \<le> \<lfloor>to_double x\<rfloor>"
    by (simp add: le_floor_iff)
  have "to_double x \<le> of_int \<lceil>x\<rceil>"
    using assms(1) x53 by (rule to_double_floor_ceiling)
  then have hi: "\<lfloor>to_double x\<rfloor> \<le> \<lceil>x\<rceil>"
    by (simp add: floor_le_iff)
  have "(of_int \<lfloor>to_double x\<rfloor> :: rat) \<le> of_int \<lceil>x\<rceil>"
    using hi by (simp only: of_int_le_iff)
  then show "- 1 < x - of_int \<lfloor>to_double x\<rfloor>"
    by linarith
  have "(of_int \<lfloor>x\<rfloor> :: rat) \<le> of_int \<lfloor>to_double x\<rfloor>"
    using lo by (simp only: of_int_le_iff)
  then show "x - of_int \<lfloor>to_double x\<rfloor> < 1"
    by linarith
qed

lemma below_two_52:
  fixes bound :: number
  assumes "bound < 2 ^ 31"
  shows "bound + bound / 2 ^ 53 < 2 ^ 52"
  using assms by simp

text \<open>
  C3 (amended). For every page that renders to an image of positive native size
  \<open>nativeW\<close> by \<open>nativeH\<close> and every pair of positive bounds (all four below
  \<open>2 ^ 31\<close>, as image sizes are), \<open>extract_page_image\<close> computes the single scale
  factor \<open>s = min (maxWidth / nativeW) (maxHeight / nativeH)\<close> and asks for a resize to
  exactly \<open>int (nativeW * s)\<close> by \<open>int (nativeH * s)\<close> pixels, each quotient and
  product a double and \<open>int\<close> truncating, the same \<open>s\<close> on both axes. It returns the
  image of that size, that size and the page's size in points, with no error notice,
  unless the resize raises; then it shows the error notice and returns no image. Nothing
  is assumed of \<open>s\<close>: the image is resized by \<open>s\<close> also when \<open>s \<ge> 1\<close>, with no
  clamp.
\<close>

theorem extract_page_image_truncates:
  assumes "py_getitem (pages pdf) page_number = Inr page"
    and "to_image page = Inr img"
    and "0 < img_width img" and "img_width img < 2 ^ 31"
    and "0 < img_height img" and "img_height img < 2 ^ 31"
    and "0 < max_width" and "max_width < 2 ^ 31"
    and "0 < max_height" and "max_height < 2 ^ 31"
  shows "extract_page_image pdf page_number max_width max_height =
           (let s = min (to_double (max_width / of_int (img_width img)))
                        (to_double (max_height / of_int (img_height img)));
                new_width = \<lfloor>to_double (of_int (img_width img) * s)\<rfloor>;
                new_height = \<lfloor>to_double (of_int (img_height img) * s)\<rfloor>
            in case resize_exc img (new_width, new_height) of
                 None \<Rightarrow>
                   ([], Some (img\<lparr>img_width := new_width, img_height := new_height\<rparr>,
                              (new_width, new_height), (page_width page, page_height page)))
               | Some e \<Rightarrow> ([St_error (''Error processing page image: '' @ str_exc e)], None))"
proof -
  have nz: "img_width img \<noteq> 0" "img_height img \<noteq> 0"
    using assms(3,5) by simp_all
  have dims: "resized_dims img max_width max_height =
      (\<lfloor>to_double (of_int (img_width img) * image_scale_factor img max_width max_height)\<rfloor>,
       \<lfloor>to_double (of_int (img_height img) * image_scale_factor img max_width max_height)\<rfloor>)"
    using assms(3,5,7,9) by (rule resized_dims_floor)
  have "extract_page_image_try pdf page_number max_width max_height =
           (case resize_exc img (resized_dims img max_width max_height) of
              None \<Rightarrow>
                Inr (img\<lparr>img_width := fst (resized_dims img max_width max_height),
                         img_height := snd (resized_dims img max_width max_height)\<rparr>,
                     resized_dims img max_width max_height,
                     (page_width page, page_height page))
            | Some e \<Rightarrow> Inl e)"
    using assms(1,2) nz by (rule extract_page_image_try_dims)
  then show ?thesis
    by (simp add: extract_page_image_def dims image_scale_factor_def Let_def split: option.splits)
qed


text \<open>
  C5. For every page that renders to an image of positive native size (sizes below
  \<open>2 ^ 31\<close>, bounds of at least one pixel and below \<open>2 ^ 31\<close>), the aspect ratio of
  the image \<open>extract_page_image\<close> returns equals that of the rendered page within one
  pixel per axis: with the one scale factor \<open>s > 0\<close> of the code there are \<open>dw\<close> and
  \<open>dh\<close>, both strictly between \<open>- 1\<close> and \<open>1\<close>, such that
  \<open>new_width + dw = nativeW * s\<close> and \<open>new_height + dh = nativeH * s\<close>, hence
  \<open>(new_width + dw) / (new_height + dh) = nativeW / nativeH\<close>.
\<close>

theorem extract_page_image_aspect_ratio:
  assumes "py_getitem (pages pdf) page_number = Inr page"
    and "to_image page = Inr img"
    and "0 < img_width img" and "img_width img < 2 ^ 31"
    and "0 < img_height img" and "img_height img < 2 ^ 31"
    and "1 \<le> max_width" and "max_width < 2 ^ 31"
    and "1 \<le> max_height" and "max_height < 2 ^ 31"
    and "resize_exc img (resized_dims img max_width max_height) = None"
  shows "\<exists>img_resized new_width new_height pdf_dims dw dh.
           extract_page_image pdf page_number max_width max_height =
             ([], Some (img_resized, (new_width, new_height), pdf_dims)) \<and>
           img_width img_resized = new_width \<and> img_height img_resized = new_height \<and>
           - 1 < dw \<and> dw < 1 \<and> - 1 < dh \<and> dh < 1 \<and>
           0 < image_scale_factor img max_width max_height \<and>
           of_int new_width + dw =
             of_int (img_width img) * image_scale_factor img max_width max_height \<and>
           of_int new_height + dh =
             of_int (img_height img) * image_scale_factor img max_width max_height \<and>
           (of_int new_width + dw) / (of_int new_height + dh) =
             (of_int (img_width img) :: number) / of_int (img_height img)"
proof -
  let ?s = "image_scale_factor img max_width max_height"
  let ?x = "of_int (img_width img) * ?s" and ?y = "of_int (img_height img) * ?s"
  let ?w = "\<lfloor>to_double ?x\<rfloor>" and ?h = "\<lfloor>to_double ?y\<rfloor>"
  let ?dw = "?x - of_int ?w" and ?dh = "?y - of_int ?h"
  have nz: "img_width img \<noteq> 0" "img_height img \<noteq> 0"
    using assms(3,5) by simp_all
  have pos: "0 < max_width" "0 < max_height"
    using assms(7,9) by linarith+
  have s: "0 < ?s"
    using assms(3-6) assms(7,9) by (rule image_scale_factor_pos)
  have dims: "resized_dims img max_width max_height = (?w, ?h)"
    using assms(3,5) pos by (rule resized_dims_floor)
  have res: "extract_page_image pdf page_number max_width max_height =
           ([], Some (img\<lparr>img_width := ?w, img_height := ?h\<rparr>, (?w, ?h),
                      (page_width page, page_height page)))"
    using extract_page_image_success [OF assms(1,2) nz assms(11)] by (simp add: dims)
  have x: "0 < ?x" and y: "0 < ?y"
    using assms(3,5) s by simp_all
  have "?x \<le> max_width + max_width / 2 ^ 53"
    using assms(3,4,7) by (rule scaled_width_le)
  then have x52: "?x < 2 ^ 52"
    using below_two_52 [OF assms(8)] by linarith
  have "?y \<le> max_height + max_height / 2 ^ 53"
    using assms(5,6,9) by (rule scaled_height_le)
  then have y52: "?y < 2 ^ 52"
    using below_two_52 [OF assms(10)] by linarith
  have dw: "- 1 < ?dw" "?dw < 1"
    using x x52 by (rule truncated_product_near)+
  have dh: "- 1 < ?dh" "?dh < 1"
    using y y52 by (rule truncated_product_near)+
  have sumw: "of_int ?w + ?dw = ?x" and sumh: "of_int ?h + ?dh = ?y"
    by simp_all
  have "(of_int ?w + ?dw) / (of_int ?h + ?dh) = ?x / ?y"
    by (simp only: sumw sumh)
  also have "\<dots> = of_int (img_width img) / of_int (img_height img)"
    using s by simp
  finally have ratio: "(of_int ?w + ?dw) / (of_int ?h + ?dh) =
      (of_int (img_width img) :: number) / of_int (img_height img)" .
  have "img_width (img\<lparr>img_width := ?w, img_height := ?h\<rparr>) = ?w"
    and "img_height (img\<lparr>img_width := ?w, img_height := ?h\<rparr>) = ?h"
    by simp_all
  with res dw dh s sumw sumh ratio show ?thesis by blast
qed

section \<open>Properties of the region text extractor\<close>

lemma extract_text_loop_append:
  assumes "\<forall>page \<in> set ps. \<not> raises rect page"
  shows "extract_text_loop rect n ps acc =
           Inr (acc @ concat (map (spec_page_part rect) (zip [n ..< n + length ps] ps)))"
  using assms
proof (induction ps arbitrary: n acc)
  case Nil
  then show ?case by simp
next
  case (Cons page rest)
  have rest: "\<forall>p \<in> set rest. \<not> raises rect p"
    using Cons.prems by simp
  have here: "\<not> raises rect page"
    using Cons.prems by simp
  have range: "[n ..< n + length (page # rest)] = n # [Suc n ..< Suc n + length rest]"
    by (simp add: upt_rec)
  show ?case
  proof (cases "within_bbox_extract_text page rect")
    case (Inl e)
    with here show ?thesis by (simp add: raises_def)
  next
    case (Inr t)
    show ?thesis
    proof (cases t)
      case None
      with Inr show ?thesis
        by (simp only: range) (simp add: Cons.IH [OF rest] spec_page_part_def)
    next
      case (Some str)
      with Inr show ?thesis
        by (simp only: range) (simp add: Cons.IH [OF rest] spec_page_part_def)
    qed
  qed
qed

text \<open>
  C2. For every document whose pages each yield text or nothing for the rectangle (no
  library call raises), \<open>extract_text_from_pdf\<close> returns the concatenation, over the
  pages in order and numbered from 1, of nothing for a page that yields no text and of the
  header \<open>"\n\n--- Page N ---\n"\<close> followed by the page's text for a page that yields
  text.
\<close>

theorem extract_text_from_pdf_spec:
  assumes "\<forall>page \<in> set (pages pdf). \<not> raises rect page"
  shows "extract_text_from_pdf pdf rect = Inr (spec_extract_text pdf rect)"
  using extract_text_loop_append [OF assms, of 1 "[]"]
  by (simp add: extract_text_from_pdf_def spec_extract_text_def)

lemma concat_parts_shape:
  "concat (map (spec_page_part rect) nps) = [] \<or>
   (\<exists>rest. concat (map (spec_page_part rect) nps) = ''\<newline>\<newline>--- Page '' @ rest)"
proof (induction nps)
  case Nil
  then show ?case by simp
next
  case (Cons np nps)
  show ?case
  proof (cases "spec_page_part rect np = []")
    case True
    with Cons.IH show ?thesis by simp
  next
    case False
    then obtain str where "spec_page_part rect np = page_header (fst np) @ str"
      by (auto simp: spec_page_part_def split: sum.splits option.splits if_splits)
    then have "concat (map (spec_page_part rect) (np # nps)) =
        ''\<newline>\<newline>--- Page '' @ (str_nat (fst np) @ '' ---\<newline>'' @ str @ concat (map (spec_page_part rect) nps))"
      by (simp add: page_header_def)
    then show ?thesis by blast
  qed
qed

lemma concat_parts_empty:
  assumes "\<forall>np \<in> set nps. \<not> yields_text rect (snd np)"
  shows "concat (map (spec_page_part rect) nps) = []"
  using assms
  by (induction nps) (auto simp: spec_page_part_def yields_text_def split: sum.splits option.splits)

text \<open>
  C10. For every document and rectangle for which \<open>extract_text_from_pdf\<close> returns
  (no library call raises), the string returned is empty or begins with
  \<open>"\n\n--- Page "\<close>; it is empty for a document with no pages and when no page yields
  text.
\<close>

theorem extract_text_from_pdf_shape:
  assumes "\<forall>page \<in> set (pages pdf). \<not> raises rect page"
  shows "\<exists>all_text. extract_text_from_pdf pdf rect = Inr all_text \<and>
           (all_text = [] \<or> (\<exists>rest. all_text = ''\<newline>\<newline>--- Page '' @ rest)) \<and>
           (pages pdf = [] \<longrightarrow> all_text = []) \<and>
           ((\<forall>page \<in> set (pages pdf). \<not> yields_text rect page) \<longrightarrow> all_text = [])"
proof -
  let ?nps = "zip [1 ..< Suc (length (pages pdf))] (pages pdf)"
  have run: "extract_text_from_pdf pdf rect = Inr (concat (map (spec_page_part rect) ?nps))"
    using extract_text_loop_append [OF assms, of 1 "[]"]
    by (simp add: extract_text_from_pdf_def)
  have shape: "concat (map (spec_page_part rect) ?nps) = [] \<or>
      (\<exists>rest. concat (map (spec_page_part rect) ?nps) = ''\<newline>\<newline>--- Page '' @ rest)"
    by (rule concat_parts_shape)
  have none: "pages pdf = [] \<longrightarrow> concat (map (spec_page_part rect) ?nps) = []"
    by simp
  have silent: "(\<forall>page \<in> set (pages pdf). \<not> yields_text rect page) \<longrightarrow>
      concat (map (spec_page_part rect) ?nps) = []"
  proof
    assume quiet: "\<forall>page \<in> set (pages pdf). \<not> yields_text rect page"
    have "\<forall>np \<in> set ?nps. \<not> yields_text rect (snd np)"
      using quiet by (auto dest: set_zip_rightD)
    then show "concat (map (spec_page_part rect) ?nps) = []"
      by (rule concat_parts_empty)
  qed
  from run shape none silent show ?thesis by blast
qed

section \<open>Properties of the loader and of \<open>main\<close>\<close>

lemma load_pdf_failure:
  assumes "opener pdf_file = Inl e"
  shows "load_pdf opener pdf_file = ([St_error (''Failed to load PDF: '' @ str_exc e)], None)"
  using assms by (simp add: load_pdf_def)

lemma load_pdf_success:
  assumes "opener pdf_file = Inr pdf"
  shows "load_pdf opener pdf_file = ([], Some pdf)"
  using assms by (simp add: load_pdf_def)

text \<open>
  C7. When \<open>pdfplumber.open\<close> raises on the uploaded file, \<open>load_pdf\<close> shows the
  notice \<open>Failed to load PDF: ..\<close> and returns \<open>None\<close>; \<open>main\<close> then shows
  \<open>Invalid PDF file. Please try again.\<close> and ends: its trace has no call of
  \<open>extract_page_image\<close> and no call of \<open>extract_text_from_pdf\<close>.
\<close>

theorem main_load_failure:
  assumes "uploaded_pdf ses = Some pdf_file"
    and "pdfplumber_open ses pdf_file = Inl e"
  shows "load_pdf (pdfplumber_open ses) pdf_file =
           ([St_error (''Failed to load PDF: '' @ str_exc e)], None) \<and>
         main ses =
           (main_head @
            [Call_load_pdf, St_error (''Failed to load PDF: '' @ str_exc e),
             St_error ''Invalid PDF file. Please try again.''], None) \<and>
         (\<forall>n. Call_extract_page_image n \<notin> set (fst (main ses))) \<and>
         (\<forall>r. Call_extract_text_from_pdf r \<notin> set (fst (main ses)))"
proof -
  have loaded: "load_pdf (pdfplumber_open ses) pdf_file =
      ([St_error (''Failed to load PDF: '' @ str_exc e)], None)"
    using assms(2) by (rule load_pdf_failure)
  have run: "main ses =
      (main_head @
       [Call_load_pdf, St_error (''Failed to load PDF: '' @ str_exc e),
        St_error ''Invalid PDF file. Please try again.''], None)"
    by (simp add: main_def assms(1) loaded after_def main_head_def)
  have "\<forall>n. Call_extract_page_image n \<notin> set (fst (main ses))"
    and "\<forall>r. Call_extract_text_from_pdf r \<notin> set (fst (main ses))"
    by (simp_all add: run main_head_def)
  with loaded run show ?thesis by simp
qed

lemma extract_page_image_quiet:
  assumes "extract_page_image pdf n mw mh = (evs, Some r)"
  shows "evs = []"
  using assms by (simp add: extract_page_image_def split: sum.splits)

lemma main_reaches_extraction:
  assumes up: "uploaded_pdf ses = Some pdf_file"
    and op: "pdfplumber_open ses pdf_file = Inr pdf"
    and sl: "sidebar_slider ses 1 (int (length (pages pdf))) 1 = Inr chosen"
    and im: "extract_page_image pdf (chosen - 1) 800 1000 =
               (evs, Some (img_pil, canvas_dims, pdf_dims))"
    and cv: "canvas_json_data ses = Some objects" and ne: "objects \<noteq> []"
    and sc: "scale_bbox_to_pdf (drawn_bbox (last objects))
               (of_int (fst canvas_dims), of_int (snd canvas_dims)) pdf_dims = Inr scaled_bbox"
  shows "main ses =
           after (extraction_prefix pdf chosen img_pil canvas_dims (drawn_bbox (last objects)) scaled_bbox)
             (case extract_text_from_pdf pdf scaled_bbox of
                Inl e \<Rightarrow> ([], Some e)
              | Inr extracted_text \<Rightarrow> (show_extracted_text extracted_text, None))"
proof -
  obtain obj objs where objects: "objects = obj # objs"
    using ne by (cases objects) auto
  have quiet: "evs = []"
    using im by (rule extract_page_image_quiet)
  have box: "process_bounding_box pdf canvas_dims pdf_dims (last objects) =
      after [St_write ''Bounding Box Coordinates'',
             St_write_bbox (fst (drawn_bbox (last objects))) (fst (snd (drawn_bbox (last objects))))
               (fst (snd (snd (drawn_bbox (last objects))))) (snd (snd (snd (drawn_bbox (last objects))))),
             Call_scale_bbox_to_pdf (drawn_bbox (last objects)),
             St_spinner ''Extracting text from PDF...'',
             Call_extract_text_from_pdf scaled_bbox]
        (case extract_text_from_pdf pdf scaled_bbox of
           Inl e \<Rightarrow> ([], Some e)
         | Inr extracted_text \<Rightarrow> (show_extracted_text extracted_text, None))"
    using sc by (simp add: process_bounding_box_def drawn_bbox_def Let_def after_def)
  have "main_with_pdf ses pdf =
      after [St_sidebar_slider ''Select Page Number'' 1 (int (length (pages pdf))) 1,
             Call_extract_page_image (chosen - 1),
             St_write (''Page '' @ str_int (chosen - 1 + 1) @ '': Draw a bounding box to select text''),
             St_canvas img_pil (fst canvas_dims) (snd canvas_dims)]
        (process_bounding_box pdf canvas_dims pdf_dims (last objects))"
    using sl cv by (simp add: main_with_pdf_def Let_def im quiet objects after_def)
  moreover have "load_pdf (pdfplumber_open ses) pdf_file = ([], Some pdf)"
    using op by (rule load_pdf_success)
  ultimately show ?thesis
    by (simp add: main_def up box after_def extraction_prefix_def main_head_def)
qed

lemma show_extracted_text_blank:
  assumes "strip extracted_text = []"
  shows "show_extracted_text extracted_text =
           [St_warning ''No text found in the selected area across all pages.'']"
  using assms by (simp add: show_extracted_text_def)

lemma show_extracted_text_found:
  assumes "strip extracted_text \<noteq> []"
  shows "show_extracted_text extracted_text =
           [St_write ''Extracted Text'',
            St_text_area ''Text from the selected area:'' extracted_text,
            St_download_button ''Download Extracted Text'' extracted_text
              ''extracted_text.txt'' ''text/plain'']"
  using assms by (simp add: show_extracted_text_def)

lemma extraction_prefix_notices:
  "St_warning msg \<notin> set (extraction_prefix pdf chosen img_pil canvas_dims box scaled_bbox)"
  "St_error msg \<notin> set (extraction_prefix pdf chosen img_pil canvas_dims box scaled_bbox)"
  "St_text_area lbl val \<notin> set (extraction_prefix pdf chosen img_pil canvas_dims box scaled_bbox)"
  by (simp_all add: extraction_prefix_def main_head_def)

text \<open>
  C6. In a run of \<open>main\<close> that reaches the extraction: a result that is empty after
  \<open>strip()\<close> ends the run normally with the warning \<open>No text found ..\<close> as its last
  event, with no error notice and no text area; a result that is not empty after
  \<open>strip()\<close> is shown in the text area and offered for download as
  \<open>extracted_text.txt\<close>, with no warning and no error notice; and an exception of the
  extraction ends the run with that exception and without the warning, so the two
  outcomes differ.
\<close>

theorem main_no_text_found:
  assumes "uploaded_pdf ses = Some pdf_file"
    and "pdfplumber_open ses pdf_file = Inr pdf"
    and "sidebar_slider ses 1 (int (length (pages pdf))) 1 = Inr chosen"
    and "extract_page_image pdf (chosen - 1) 800 1000 =
           (evs, Some (img_pil, canvas_dims, pdf_dims))"
    and "canvas_json_data ses = Some objects" and "objects \<noteq> []"
    and "scale_bbox_to_pdf (drawn_bbox (last objects))
           (of_int (fst canvas_dims), of_int (snd canvas_dims)) pdf_dims = Inr scaled_bbox"
  shows "(\<forall>extracted_text.
            extract_text_from_pdf pdf scaled_bbox = Inr extracted_text \<and>
            strip extracted_text = [] \<longrightarrow>
              snd (main ses) = None \<and>
              last (fst (main ses)) =
                St_warning ''No text found in the selected area across all pages.'' \<and>
              (\<forall>msg. St_error msg \<notin> set (fst (main ses))) \<and>
              (\<forall>lbl val. St_text_area lbl val \<notin> set (fst (main ses)))) \<and>
         (\<forall>extracted_text.
            extract_text_from_pdf pdf scaled_bbox = Inr extracted_text \<and>
            strip extracted_text \<noteq> [] \<longrightarrow>
              snd (main ses) = None \<and>
              St_text_area ''Text from the selected area:'' extracted_text \<in> set (fst (main ses)) \<and>
              St_download_button ''Download Extracted Text'' extracted_text
                ''extracted_text.txt'' ''text/plain'' \<in> set (fst (main ses)) \<and>
              (\<forall>msg. St_warning msg \<notin> set (fst (main ses))) \<and>
              (\<forall>msg. St_error msg \<notin> set (fst (main ses)))) \<and>
         (\<forall>e. extract_text_from_pdf pdf scaled_bbox = Inl e \<longrightarrow>
              snd (main ses) = Some e \<and>
              (\<forall>msg. St_warning msg \<notin> set (fst (main ses))))"
proof -
  let ?pre = "extraction_prefix pdf chosen img_pil canvas_dims (drawn_bbox (last objects)) scaled_bbox"
  note run = main_reaches_extraction [OF assms]
  have blank: "snd (main ses) = None \<and>
      last (fst (main ses)) = St_warning ''No text found in the selected area across all pages.'' \<and>
      (\<forall>msg. St_error msg \<notin> set (fst (main ses))) \<and>
      (\<forall>lbl val. St_text_area lbl val \<notin> set (fst (main ses)))"
    if "extract_text_from_pdf pdf scaled_bbox = Inr extracted_text" and "strip extracted_text = []"
    for extracted_text
  proof -
    have "main ses =
        (?pre @ [St_warning ''No text found in the selected area across all pages.''], None)"
      by (simp add: run that(1) show_extracted_text_blank [OF that(2)] after_def)
    then show ?thesis
      by (simp add: extraction_prefix_notices)
  qed
  have found: "snd (main ses) = None \<and>
      St_text_area ''Text from the selected area:'' extracted_text \<in> set (fst (main ses)) \<and>
      St_download_button ''Download Extracted Text'' extracted_text
        ''extracted_text.txt'' ''text/plain'' \<in> set (fst (main ses)) \<and>
      (\<forall>msg. St_warning msg \<notin> set (fst (main ses))) \<and>
      (\<forall>msg. St_error msg \<notin> set (fst (main ses)))"
    if "extract_text_from_pdf pdf scaled_bbox = Inr extracted_text" and "strip extracted_text \<noteq> []"
    for extracted_text
  proof -
    have "main ses =
        (?pre @ [St_write ''Extracted Text'',
                 St_text_area ''Text from the selected area:'' extracted_text,
                 St_download_button ''Download Extracted Text'' extracted_text
                   ''extracted_text.txt'' ''text/plain''], None)"
      by (simp add: run that(1) show_extracted_text_found [OF that(2)] after_def)
    then show ?thesis
      by (simp add: extraction_prefix_notices)
  qed
  have failed: "snd (main ses) = Some e \<and> (\<forall>msg. St_warning msg \<notin> set (fst (main ses)))"
    if "extract_text_from_pdf pdf scaled_bbox = Inl e" for e
  proof -
    have "main ses = (?pre, Some e)"
      by (simp add: run that after_def)
    then show ?thesis
      by (simp add: extraction_prefix_notices)
  qed
  from blank found failed show ?thesis by blast
qed

section \<open>The theorems at sample inputs\<close>

lemma two_page_quiet: "\<forall>page \<in> set (pages two_page_pdf). \<not> raises r page"
  by (simp add: two_page_pdf_def blank_page_def letter_page_def raises_def)

lemma spec_two_page:
  "spec_extract_text two_page_pdf r = ''\<newline>\<newline>--- Page 2 ---\<newline>Hello''"
  by (simp add: spec_extract_text_def two_page_pdf_def spec_page_part_def blank_page_def
      letter_page_def page_header_def upt_rec)

theorem extract_text_from_pdf_spec_witness:
  "pages two_page_pdf = [blank_page, letter_page] \<and>
   \<not> raises (0, 0, 100, 100) blank_page \<and> \<not> raises (0, 0, 100, 100) letter_page \<and>
   extract_text_from_pdf two_page_pdf (0, 0, 100, 100) =
     Inr ''\<newline>\<newline>--- Page 2 ---\<newline>Hello''"
proof -
  have "pages two_page_pdf = [blank_page, letter_page]"
    by (simp add: two_page_pdf_def)
  moreover have "\<not> raises (0, 0, 100, 100) blank_page"
    and "\<not> raises (0, 0, 100, 100) letter_page"
    by (simp_all add: blank_page_def letter_page_def raises_def)
  moreover have "extract_text_from_pdf two_page_pdf (0, 0, 100, 100) =
      Inr ''\<newline>\<newline>--- Page 2 ---\<newline>Hello''"
    using extract_text_from_pdf_spec [OF two_page_quiet, of "(0, 0, 100, 100)"]
    by (simp only: spec_two_page)
  ultimately show ?thesis
    by simp
qed

theorem extract_text_from_pdf_shape_witness:
  "pages two_page_pdf = [blank_page, letter_page] \<and>
   \<not> raises (0, 0, 100, 100) blank_page \<and> \<not> raises (0, 0, 100, 100) letter_page \<and>
   (\<exists>all_text. extract_text_from_pdf two_page_pdf (0, 0, 100, 100) = Inr all_text \<and>
      (all_text = [] \<or> (\<exists>rest. all_text = ''\<newline>\<newline>--- Page '' @ rest)) \<and>
      (pages two_page_pdf = [] \<longrightarrow> all_text = []) \<and>
      ((\<forall>page \<in> set (pages two_page_pdf). \<not> yields_text (0, 0, 100, 100) page) \<longrightarrow>
         all_text = []))"
proof -
  have "pages two_page_pdf = [blank_page, letter_page]"
    by (simp add: two_page_pdf_def)
  moreover have "\<not> raises (0, 0, 100, 100) blank_page"
    and "\<not> raises (0, 0, 100, 100) letter_page"
    by (simp_all add: blank_page_def letter_page_def raises_def)
  ultimately show ?thesis
    using extract_text_from_pdf_shape [OF two_page_quiet, of "(0, 0, 100, 100)"]
    by blast
qed

theorem main_load_failure_witness:
  "uploaded_pdf broken_session = Some ''not a pdf'' \<and>
   pdfplumber_open broken_session ''not a pdf'' =
     Inl (Raised ''No /Root object! - Is this really a PDF?'') \<and>
   load_pdf (pdfplumber_open broken_session) ''not a pdf'' =
     ([St_error ''Failed to load PDF: No /Root object! - Is this really a PDF?''], None) \<and>
   main broken_session =
     (main_head @
      [Call_load_pdf, St_error ''Failed to load PDF: No /Root object! - Is this really a PDF?'',
       St_error ''Invalid PDF file. Please try again.''], None)"
proof -
  have up: "uploaded_pdf broken_session = Some ''not a pdf''"
    by (simp add: broken_session_def)
  have op: "pdfplumber_open broken_session ''not a pdf'' =
      Inl (Raised ''No /Root object! - Is this really a PDF?'')"
    by (simp add: broken_session_def)
  from main_load_failure [OF up op] up op show ?thesis
    by simp
qed

lemma letter_lookup: "py_getitem (pages letter_pdf) 0 = Inr letter_page"
  by (simp add: py_getitem_def letter_pdf_def)

lemma letter_render: "to_image letter_page = Inr letter_image"
  by (simp add: letter_page_def)

lemma letter_size: "img_width letter_image = 612" "img_height letter_image = 792"
  by (simp_all add: letter_image_def)

lemma letter_resize: "resize_exc letter_image sz = None"
  by (simp add: letter_image_def)

lemma letter_dims: "resized_dims letter_image 800 1000 = (772, 999)"
  by code_simp

lemma letter_extract:
  "extract_page_image letter_pdf 0 800 1000 =
     ([], Some (letter_image\<lparr>img_width := 772, img_height := 999\<rparr>, (772, 999), (612, 792)))"
proof -
  have "img_width letter_image \<noteq> 0" and "img_height letter_image \<noteq> 0"
    by (simp_all add: letter_size)
  from extract_page_image_success [OF letter_lookup letter_render this letter_resize]
  show ?thesis
    by (simp add: letter_dims letter_page_def)
qed

text \<open>
  C3 as stated fails on a US-letter page: 612 by 792 pixels within 800 by 1000 gives the
  double \<open>s = 1.2626262626262625\<close>, the products \<open>772.72..\<close> and
  \<open>999.9999999999999\<close>, and the size 772 by 999, where rounding gives 773 by 1000 (in
  double arithmetic and in exact arithmetic alike).
\<close>

theorem extract_page_image_round_counterexample:
  "extract_page_image letter_pdf 0 800 1000 =
     ([], Some (letter_image\<lparr>img_width := 772, img_height := 999\<rparr>, (772, 999), (612, 792))) \<and>
   spec_rounded_dims 612 792 800 1000 = (773, 1000) \<and>
   (round ((612::rat) * min (800 / 612) (1000 / 792)),
    round ((792::rat) * min (800 / 612) (1000 / 792))) = (773, 1000)"
proof -
  have "spec_rounded_dims 612 792 800 1000 = (773, 1000)"
    by code_simp
  moreover have "(round ((612::rat) * min (800 / 612) (1000 / 792)),
      round ((792::rat) * min (800 / 612) (1000 / 792))) = (773, 1000)"
    by (simp add: round_def floor_eq_iff)
  ultimately show ?thesis
    using letter_extract by simp
qed

lemma letter_scaled:
  "\<lfloor>to_double (of_int (img_width letter_image) *
      min (to_double (800 / of_int (img_width letter_image)))
          (to_double (1000 / of_int (img_height letter_image))))\<rfloor> = 772"
  "\<lfloor>to_double (of_int (img_height letter_image) *
      min (to_double (800 / of_int (img_width letter_image)))
          (to_double (1000 / of_int (img_height letter_image))))\<rfloor> = 999"
  by code_simp+

theorem extract_page_image_truncates_witness:
  "py_getitem (pages letter_pdf) 0 = Inr letter_page \<and>
   to_image letter_page = Inr letter_image \<and>
   0 < img_width letter_image \<and> img_width letter_image < 2 ^ 31 \<and>
   0 < img_height letter_image \<and> img_height letter_image < 2 ^ 31 \<and>
   (0::number) < 800 \<and> (800::number) < 2 ^ 31 \<and>
   (0::number) < 1000 \<and> (1000::number) < 2 ^ 31 \<and>
   extract_page_image letter_pdf 0 800 1000 =
     ([], Some (letter_image\<lparr>img_width := 772, img_height := 999\<rparr>, (772, 999), (612, 792)))"
proof -
  have w: "0 < img_width letter_image" "img_width letter_image < 2 ^ 31"
    and h: "0 < img_height letter_image" "img_height letter_image < 2 ^ 31"
    by (simp_all add: letter_size)
  have mw: "(0::number) < 800" "(800::number) < 2 ^ 31"
    and mh: "(0::number) < 1000" "(1000::number) < 2 ^ 31"
    by simp_all
  note run = extract_page_image_truncates [OF letter_lookup letter_render w h mw mh]
  have "extract_page_image letter_pdf 0 800 1000 =
     ([], Some (letter_image\<lparr>img_width := 772, img_height := 999\<rparr>, (772, 999), (612, 792)))"
    using run by (simp add: Let_def letter_scaled letter_resize letter_page_def)
  with letter_lookup letter_render w h show ?thesis
    by simp
qed

theorem extract_page_image_aspect_ratio_witness:
  "py_getitem (pages letter_pdf) 0 = Inr letter_page \<and>
   to_image letter_page = Inr letter_image \<and>
   0 < img_width letter_image \<and> img_width letter_image < 2 ^ 31 \<and>
   0 < img_height letter_image \<and> img_height letter_image < 2 ^ 31 \<and>
   (1::number) \<le> 800 \<and> (800::number) < 2 ^ 31 \<and>
   (1::number) \<le> 1000 \<and> (1000::number) < 2 ^ 31 \<and>
   resize_exc letter_image (resized_dims letter_image 800 1000) = None \<and>
   (\<exists>img_resized new_width new_height pdf_dims dw dh.
      extract_page_image letter_pdf 0 800 1000 =
        ([], Some (img_resized, (new_width, new_height), pdf_dims)) \<and>
      img_width img_resized = new_width \<and> img_height img_resized = new_height \<and>
      - 1 < dw \<and> dw < 1 \<and> - 1 < dh \<and> dh < 1 \<and>
      0 < image_scale_factor letter_image 800 1000 \<and>
      of_int new_width + dw = 612 * image_scale_factor letter_image 800 1000 \<and>
      of_int new_height + dh = 792 * image_scale_factor letter_image 800 1000 \<and>
      (of_int new_width + dw) / (of_int new_height + dh) = (612::number) / 792)"
proof -
  have w: "0 < img_width letter_image" "img_width letter_image < 2 ^ 31"
    and h: "0 < img_height letter_image" "img_height letter_image < 2 ^ 31"
    by (simp_all add: letter_size)
  have mw: "(1::number) \<le> 800" "(800::number) < 2 ^ 31"
    and mh: "(1::number) \<le> 1000" "(1000::number) < 2 ^ 31"
    by simp_all
  note run = extract_page_image_aspect_ratio
    [OF letter_lookup letter_render w h mw mh letter_resize]
  have "\<exists>img_resized new_width new_height pdf_dims dw dh.
      extract_page_image letter_pdf 0 800 1000 =
        ([], Some (img_resized, (new_width, new_height), pdf_dims)) \<and>
      img_width img_resized = new_width \<and> img_height img_resized = new_height \<and>
      - 1 < dw \<and> dw < 1 \<and> - 1 < dh \<and> dh < 1 \<and>
      0 < image_scale_factor letter_image 800 1000 \<and>
      of_int new_width + dw = 612 * image_scale_factor letter_image 800 1000 \<and>
      of_int new_height + dh = 792 * image_scale_factor letter_image 800 1000 \<and>
      (of_int new_width + dw) / (of_int new_height + dh) = (612::number) / 792"
    using run by (simp only: letter_size of_int_numeral)
  with letter_lookup letter_render w h letter_resize show ?thesis
    by simp
qed



lemma blank_lookup: "py_getitem (pages blank_pdf) (1 - 1) = Inr blank_page"
  by (simp add: py_getitem_def blank_pdf_def)

lemma blank_render:
  "extract_page_image blank_pdf (1 - 1) 800 1000 =
     ([], Some (letter_image\<lparr>img_width := 772, img_height := 999\<rparr>, (772, 999), (612, 792)))"
proof -
  have render: "to_image blank_page = Inr letter_image"
    by (simp add: blank_page_def)
  have "img_width letter_image \<noteq> 0" and "img_height letter_image \<noteq> 0"
    by (simp_all add: letter_size)
  from extract_page_image_success [OF blank_lookup render this letter_resize]
  show ?thesis
    by (simp add: letter_dims blank_page_def)
qed

theorem main_no_text_found_witness:
  "uploaded_pdf blank_session = Some ''blank.pdf'' \<and>
   pdfplumber_open blank_session ''blank.pdf'' = Inr blank_pdf \<and>
   sidebar_slider blank_session 1 (int (length (pages blank_pdf))) 1 = Inr 1 \<and>
   extract_page_image blank_pdf (1 - 1) 800 1000 =
     ([], Some (letter_image\<lparr>img_width := 772, img_height := 999\<rparr>, (772, 999), (612, 792))) \<and>
   canvas_json_data blank_session = Some [drawn_box] \<and> [drawn_box] \<noteq> [] \<and>
   scale_bbox_to_pdf (drawn_bbox (last [drawn_box]))
     (of_int (fst (772, 999)), of_int (snd (772, 999))) (612, 792) =
     Inr (15300 / 193, 8800 / 111, 45900 / 193, 17600 / 111) \<and>
   extract_text_from_pdf blank_pdf (15300 / 193, 8800 / 111, 45900 / 193, 17600 / 111) = Inr [] \<and>
   strip [] = [] \<and>
   snd (main blank_session) = None \<and>
   last (fst (main blank_session)) =
     St_warning ''No text found in the selected area across all pages.'' \<and>
   (\<forall>msg. St_error msg \<notin> set (fst (main blank_session))) \<and>
   (\<forall>lbl val. St_text_area lbl val \<notin> set (fst (main blank_session)))"
proof -
  have up: "uploaded_pdf blank_session = Some ''blank.pdf''"
    and op: "pdfplumber_open blank_session ''blank.pdf'' = Inr blank_pdf"
    and sl: "sidebar_slider blank_session 1 (int (length (pages blank_pdf))) 1 = Inr 1"
    and cv: "canvas_json_data blank_session = Some [drawn_box]"
    by (simp_all add: blank_session_def)
  have ne: "[drawn_box] \<noteq> []"
    by simp
  have sc: "scale_bbox_to_pdf (drawn_bbox (last [drawn_box]))
      (of_int (fst (772, 999)), of_int (snd (772, 999))) (612, 792) =
      Inr (15300 / 193, 8800 / 111, 45900 / 193, 17600 / 111)"
    by (simp add: drawn_bbox_def drawn_box_def scale_bbox_to_pdf_def py_truediv_def)
  have ex: "extract_text_from_pdf blank_pdf (15300 / 193, 8800 / 111, 45900 / 193, 17600 / 111) = Inr []"
    by (simp add: extract_text_from_pdf_def blank_pdf_def blank_page_def)
  have st: "strip [] = []"
    by (simp add: strip_def)
  note inst = main_no_text_found [OF up op sl blank_render cv ne sc]
  from inst ex st have
    "snd (main blank_session) = None \<and>
     last (fst (main blank_session)) =
       St_warning ''No text found in the selected area across all pages.'' \<and>
     (\<forall>msg. St_error msg \<notin> set (fst (main blank_session))) \<and>
     (\<forall>lbl val. St_text_area lbl val \<notin> set (fst (main blank_session)))"
    by blast
  with up op sl blank_render cv ne sc ex st show ?thesis
    by blast
qed

end
